theory Spec2Isabelle
  imports Main "HOL-Library.Sublist"
begin

section \<open>Strings of code points\<close>

text \<open>
  The program is Python: a \<open>str\<close> is a sequence of Unicode code points, and the bullet
  glyphs the normalizer looks for lie outside ASCII. A string is therefore modelled as a
  list of code points (natural numbers), not as a list of 8-bit characters.
\<close>

type_synonym ustring = "nat list"

definition ustr :: "string \<Rightarrow> ustring" where
  "ustr s = map of_char s"

text \<open>
  \<open>str.isspace\<close>, which is also the class \<open>\s\<close> of \<open>re\<close> on \<open>str\<close> patterns:
  TAB, LF, VT, FF, CR, FS, GS, RS, US, SPACE, NEL, NBSP, OGHAM SPACE, U+2000..U+200A,
  LINE SEPARATOR, PARAGRAPH SEPARATOR, NNBSP, MMSP, IDEOGRAPHIC SPACE.
\<close>

definition is_space :: "nat \<Rightarrow> bool" where
  "is_space c \<longleftrightarrow>
     c \<in> {9, 10, 11, 12, 13, 28, 29, 30, 31, 32, 133, 160, 5760, 8232, 8233, 8239, 8287, 12288}
     \<or> (8192 \<le> c \<and> c \<le> 8202)"

text \<open>
  The line boundaries of \<open>str.splitlines\<close>: LF, VT, FF, CR, FS, GS, RS, NEL,
  LINE SEPARATOR, PARAGRAPH SEPARATOR.
\<close>

definition is_linebreak :: "nat \<Rightarrow> bool" where
  "is_linebreak c \<longleftrightarrow> c \<in> {10, 11, 12, 13, 28, 29, 30, 133, 8232, 8233}"

text \<open>
  The class \<open>\d\<close> of \<open>re\<close> on \<open>str\<close> patterns is the Unicode category Nd. It consists of
  blocks of ten consecutive code points; the table lists the first code point of every
  block (Unicode 14.0, the database of CPython 3.11).
\<close>

definition decimal_blocks :: "nat list" where
  "decimal_blocks =
    [48, 1632, 1776, 1984, 2406, 2534, 2662, 2790, 2918, 3046, 3174, 3302, 3430, 3558,
     3664, 3792, 3872, 4160, 4240, 6112, 6160, 6470, 6608, 6784, 6800, 6992, 7088, 7232,
     7248, 42528, 43216, 43264, 43472, 43504, 43600, 44016, 65296, 66720, 68912, 69734,
     69872, 69942, 70096, 70384, 70736, 70864, 71248, 71360, 71472, 71904, 72016, 72784,
     73040, 73120, 92768, 92864, 93008, 120782, 120792, 120802, 120812, 120822, 123200,
     123632, 125264, 130032]"

definition is_digit :: "nat \<Rightarrow> bool" where
  "is_digit c \<longleftrightarrow> list_ex (\<lambda>b. b \<le> c \<and> c < b + 10) decimal_blocks"

text \<open>
  The character class of the two bullet patterns: EN DASH, EM DASH, BULLET,
  BULLET OPERATOR, MIDDLE DOT, TRIANGULAR BULLET.
\<close>

definition is_bullet_glyph :: "nat \<Rightarrow> bool" where
  "is_bullet_glyph c \<longleftrightarrow> c \<in> {8211, 8212, 8226, 8729, 183, 8227}"

subsection \<open>splitlines, split, join, strip\<close>

text \<open>
  \<open>str.splitlines()\<close>: the scan of CPython, with the line read so far as an accumulator.
  CR LF is one boundary; a boundary at the very end opens no further line.
\<close>

fun splitlines_from :: "ustring \<Rightarrow> ustring \<Rightarrow> ustring list" where
  "splitlines_from cur [] = (if cur = [] then [] else [cur])"
| "splitlines_from cur (c # rest) =
     (if is_linebreak c then
        (case rest of
           [] \<Rightarrow> cur # splitlines_from [] rest
         | d # rest' \<Rightarrow>
             if c = 13 \<and> d = 10 then cur # splitlines_from [] rest'
             else cur # splitlines_from [] rest)
      else splitlines_from (cur @ [c]) rest)"

definition splitlines :: "ustring \<Rightarrow> ustring list" where
  "splitlines s = splitlines_from [] s"

text \<open>\<open>"\n".join(lines)\<close>\<close>

fun join_lf :: "ustring list \<Rightarrow> ustring" where
  "join_lf [] = []"
| "join_lf [l] = l"
| "join_lf (l # m # ls) = l @ 10 # join_lf (m # ls)"

text \<open>\<open>s.split('\n')\<close>: every LF is a boundary and the result is never empty.\<close>

fun split_lf_from :: "ustring \<Rightarrow> ustring \<Rightarrow> ustring list" where
  "split_lf_from cur [] = [cur]"
| "split_lf_from cur (c # rest) =
     (if c = 10 then cur # split_lf_from [] rest else split_lf_from (cur @ [c]) rest)"

definition split_lf :: "ustring \<Rightarrow> ustring list" where
  "split_lf s = split_lf_from [] s"

text \<open>\<open>s.strip()\<close>\<close>

definition strip :: "ustring \<Rightarrow> ustring" where
  "strip s = rev (dropWhile is_space (rev (dropWhile is_space s)))"

text \<open>\<open>s.startswith(p)\<close>\<close>

definition startswith :: "ustring \<Rightarrow> ustring \<Rightarrow> bool" where
  "startswith s p \<longleftrightarrow> take (length p) s = p"

section \<open>The bullet normalizer\<close>

subsection \<open>The regular expressions\<close>

text \<open>
  Every pattern is anchored with \<open>^\<close> and begins with a greedy \<open>\s*\<close>; what follows
  it never begins with a whitespace character, so the match is decided on the line
  with its leading whitespace dropped.

  \<open>fence_pattern = ^\s*(```|~~~)\<close>
\<close>

definition fence_pattern_match :: "ustring \<Rightarrow> bool" where
  "fence_pattern_match l \<longleftrightarrow>
     (let r = dropWhile is_space l in startswith r [96, 96, 96] \<or> startswith r [126, 126, 126])"

text \<open>
  \<open>heading_pattern = ^\s*#{1,6}\s+\<close>: between one and six number signs, and the
  character after them is whitespace (a seventh number sign is not).
\<close>

definition heading_pattern_match :: "ustring \<Rightarrow> bool" where
  "heading_pattern_match l \<longleftrightarrow>
     (let r = dropWhile is_space l;
          n = length (takeWhile (\<lambda>c. c = 35) r)
      in 1 \<le> n \<and> n \<le> 6 \<and> (case drop n r of [] \<Rightarrow> False | c # _ \<Rightarrow> is_space c))"

text \<open>
  \<open>list_start_pattern = ^\s*([-*+]\s|\d+\.\s)\<close>: a hyphen, asterisk or plus and a
  whitespace character, or a run of decimal digits, a full stop and a whitespace character.
\<close>

definition list_start_pattern_match :: "ustring \<Rightarrow> bool" where
  "list_start_pattern_match l \<longleftrightarrow>
     (let r = dropWhile is_space l in
        (case r of c # d # _ \<Rightarrow> c \<in> {45, 42, 43} \<and> is_space d | _ \<Rightarrow> False)
        \<or> (takeWhile is_digit r \<noteq> [] \<and>
            (case dropWhile is_digit r of c # d # _ \<Rightarrow> c = 46 \<and> is_space d | _ \<Rightarrow> False)))"

text \<open>The guard \<open>re.match(r"^\s*[glyphs]", line)\<close>.\<close>

definition bullet_glyph_match :: "ustring \<Rightarrow> bool" where
  "bullet_glyph_match l \<longleftrightarrow>
     (case dropWhile is_space l of [] \<Rightarrow> False | c # _ \<Rightarrow> is_bullet_glyph c)"

text \<open>
  \<open>re.sub(r"^(\s*)[glyphs]\s*", r"\1- ", line, count=1)\<close>: the indentation is kept,
  the glyph and the whitespace after it become a hyphen and a space. A line the
  pattern does not match is returned as it is.
\<close>

definition bullet_glyph_sub :: "ustring \<Rightarrow> ustring" where
  "bullet_glyph_sub l =
     (case dropWhile is_space l of
        [] \<Rightarrow> l
      | c # r \<Rightarrow>
          if is_bullet_glyph c then takeWhile is_space l @ [45, 32] @ dropWhile is_space r
          else l)"

text \<open>
  \<open>re.sub(r"^(\s*)-(?!\s)(.*)$", r"\1- \2", line)\<close>: a leading hyphen that no
  whitespace character follows gets a space after it. The dot does not match LF and
  \<open>$\<close> matches at the end or before a final LF, so the pattern matches only when the
  text after the hyphen has no LF except possibly as its last character.
\<close>

definition dash_space_sub :: "ustring \<Rightarrow> ustring" where
  "dash_space_sub l =
     (case dropWhile is_space l of
        [] \<Rightarrow> l
      | c # r \<Rightarrow>
          if c = 45 \<and> (case r of [] \<Rightarrow> True | d # _ \<Rightarrow> \<not> is_space d) \<and> 10 \<notin> set (butlast r)
          then takeWhile is_space l @ [45, 32] @ r
          else l)"

subsection \<open>The loop\<close>

record norm_state =
  inside_code_fence :: bool
  previous_raw_line :: ustring
  normalized_lines :: "ustring list"

definition norm_init :: norm_state where
  "norm_init = \<lparr>inside_code_fence = False, previous_raw_line = [], normalized_lines = []\<rparr>"

text \<open>The transformation of a line outside a fence: glyph replacement, then the dash fix.\<close>

definition fix_line :: "ustring \<Rightarrow> ustring" where
  "fix_line raw_line =
     dash_space_sub (if bullet_glyph_match raw_line then bullet_glyph_sub raw_line else raw_line)"

text \<open>One iteration of \<open>for raw_line in lines\<close>.\<close>

definition norm_step :: "norm_state \<Rightarrow> ustring \<Rightarrow> norm_state" where
  "norm_step st raw_line =
     (if fence_pattern_match raw_line then
        \<lparr>inside_code_fence = \<not> inside_code_fence st,
         previous_raw_line = raw_line,
         normalized_lines = normalized_lines st @ [raw_line]\<rparr>
      else if \<not> inside_code_fence st then
        (let line = fix_line raw_line;
             emitted =
               (if previous_raw_line st \<noteq> [] \<and> heading_pattern_match (previous_raw_line st)
                   \<and> list_start_pattern_match line
                then (if normalized_lines st \<noteq> [] \<and> last (normalized_lines st) \<noteq> []
                      then normalized_lines st @ [[]] else normalized_lines st)
                else normalized_lines st)
         in st\<lparr>previous_raw_line := raw_line, normalized_lines := emitted @ [line]\<rparr>)
      else st\<lparr>previous_raw_line := raw_line, normalized_lines := normalized_lines st @ [raw_line]\<rparr>)"

definition norm_run :: "ustring list \<Rightarrow> norm_state" where
  "norm_run ls = foldl norm_step norm_init ls"

definition normalize_markdown_bullets :: "ustring \<Rightarrow> ustring" where
  "normalize_markdown_bullets content =
     (if content = [] then content
      else join_lf (normalized_lines (norm_run (splitlines content))))"

text \<open>
  What the loop does to the lines one by one, without the blank lines it inserts: a
  fence line and a line inside a fence stay as they are, any other line is fixed.
\<close>

fun per_line :: "bool \<Rightarrow> ustring list \<Rightarrow> ustring list" where
  "per_line inside [] = []"
| "per_line inside (l # ls) =
     (if fence_pattern_match l then l # per_line (\<not> inside) ls
      else if inside then l # per_line inside ls
      else fix_line l # per_line inside ls)"

text \<open>\<open>blank_insertion ts ls\<close>: the list \<open>ls\<close> is \<open>ts\<close> with blank lines inserted.\<close>

fun blank_insertion :: "ustring list \<Rightarrow> ustring list \<Rightarrow> bool" where
  "blank_insertion [] ls = list_all (\<lambda>l. l = []) ls"
| "blank_insertion (t # ts) [] = False"
| "blank_insertion (t # ts) (l # ls) =
     ((l = t \<and> blank_insertion ts ls) \<or> (l = [] \<and> blank_insertion (t # ts) ls))"

section \<open>The line-model document builder\<close>

text \<open>
  The document object of \<open>python-docx\<close> is modelled by what the builder adds to it, in
  order: headings with a level, and paragraphs made of runs that are bold or not.
\<close>

datatype run = Run (run_text: ustring) (run_bold: bool)

datatype doc_node = Heading nat ustring | Paragraph "run list"

text \<open>\<open>'**' in text\<close>\<close>

fun contains_stars :: "ustring \<Rightarrow> bool" where
  "contains_stars (c # d # rest) = ((c = 42 \<and> d = 42) \<or> contains_stars (d # rest))"
| "contains_stars _ = False"

text \<open>\<open>text.split('**')\<close>: the occurrences are taken from the left and do not overlap.\<close>

fun split_stars_from :: "ustring \<Rightarrow> ustring \<Rightarrow> ustring list" where
  "split_stars_from cur (c # d # rest) =
     (if c = 42 \<and> d = 42 then cur # split_stars_from [] rest
      else split_stars_from (cur @ [c]) (d # rest))"
| "split_stars_from cur [c] = [cur @ [c]]"
| "split_stars_from cur [] = [cur]"

definition split_stars :: "ustring \<Rightarrow> ustring list" where
  "split_stars s = split_stars_from [] s"

text \<open>\<open>for i, part in enumerate(parts)\<close>: a run per part, bold when \<open>i % 2\<close> is not 0.\<close>

fun add_runs :: "nat \<Rightarrow> ustring list \<Rightarrow> run list" where
  "add_runs i [] = []"
| "add_runs i (part # parts) =
     (if i mod 2 = 0 then Run part False else Run part True) # add_runs (i + 1) parts"

definition paragraph_runs :: "ustring \<Rightarrow> run list" where
  "paragraph_runs t =
     (if contains_stars t then add_runs 0 (split_stars t) else [Run t False])"

text \<open>One iteration of \<open>for line in lines\<close> of \<open>convert_to_docx\<close>.\<close>

definition docx_step :: "doc_node list \<Rightarrow> ustring \<Rightarrow> doc_node list" where
  "docx_step doc raw =
     (let line = strip raw in
      if line = [] then doc
      else if startswith line [35, 32] then doc @ [Heading 1 (drop 2 line)]
      else if startswith line [35, 35, 32] then doc @ [Heading 2 (drop 3 line)]
      else if startswith line [35, 35, 35, 32] then doc @ [Heading 3 (drop 4 line)]
      else if startswith line [35, 35, 35, 35, 32] then doc @ [Heading 4 (drop 5 line)]
      else if startswith line [96, 96, 96] then doc
      else doc @ [Paragraph (paragraph_runs line)])"

text \<open>The document: the title as a heading of level 0, then the lines of the content.\<close>

definition docx_document :: "ustring \<Rightarrow> ustring \<Rightarrow> doc_node list" where
  "docx_document title content = foldl docx_step [Heading 0 title] (split_lf content)"

section \<open>The artifact registry and the download\<close>

record file_info =
  path :: ustring
  filename :: ustring

type_synonym registry = "ustring \<rightharpoonup> file_info"

datatype http_exception = HTTPException (status_code: nat) (detail: ustring)

record file_response =
  response_path :: ustring
  response_filename :: ustring
  media_type :: ustring

text \<open>\<open>title.replace(' ', '_')\<close>\<close>

definition replace_spaces :: "ustring \<Rightarrow> ustring" where
  "replace_spaces s = map (\<lambda>c. if c = 32 then 95 else c) s"

text \<open>\<open>os.path.join(a, b)\<close> of \<open>posixpath\<close>, for two components.\<close>

definition os_path_join :: "ustring \<Rightarrow> ustring \<Rightarrow> ustring" where
  "os_path_join a b =
     (if startswith b [47] then b
      else if a = [] \<or> last a = 47 then a @ b
      else a @ [47] @ b)"

text \<open>
  The end of \<open>convert_to_pdf\<close> and of \<open>convert_to_docx\<close>, after the file is written:
  the entry of the registry. The identifier (a fresh UUID) and the temporary directory
  come from the environment; \<open>ext\<close> is \<open>.pdf\<close> or \<open>.docx\<close>. The title may be absent
  (\<open>Optional[str]\<close>): then \<open>replace\<close> raises, the handler of the conversion turns the
  exception into status 500 with the message prefixed by \<open>what\<close>, and nothing is stored.
\<close>

definition store_file_info ::
  "ustring \<Rightarrow> ustring \<Rightarrow> ustring \<Rightarrow> ustring \<Rightarrow> ustring option \<Rightarrow> registry
     \<Rightarrow> http_exception + registry" where
  "store_file_info what ext temp_dir file_id title temp_files =
     (case title of
        None \<Rightarrow>
          Inl (HTTPException 500
                 (what @ ustr '' conversion failed: '' @ [39] @ ustr ''NoneType'' @ [39]
                    @ ustr '' object has no attribute '' @ [39] @ ustr ''replace'' @ [39]))
      | Some t \<Rightarrow>
          Inr (temp_files(file_id \<mapsto>
                 \<lparr>path = os_path_join temp_dir (file_id @ ext),
                  filename = replace_spaces t @ ext\<rparr>)))"

definition store_pdf :: "ustring \<Rightarrow> ustring \<Rightarrow> ustring option \<Rightarrow> registry
    \<Rightarrow> http_exception + registry" where
  "store_pdf = store_file_info (ustr ''PDF'') (ustr ''.pdf'')"

definition store_docx :: "ustring \<Rightarrow> ustring \<Rightarrow> ustring option \<Rightarrow> registry
    \<Rightarrow> http_exception + registry" where
  "store_docx = store_file_info (ustr ''DOCX'') (ustr ''.docx'')"

text \<open>
  \<open>download_file\<close>: \<open>exists\<close> is \<open>os.path.exists\<close>, the state of the disk at the time of
  the request.
\<close>

definition download_file ::
  "registry \<Rightarrow> (ustring \<Rightarrow> bool) \<Rightarrow> ustring \<Rightarrow> http_exception + file_response" where
  "download_file temp_files exists file_id =
     (case temp_files file_id of
        None \<Rightarrow> Inl (HTTPException 404 (ustr ''File not found''))
      | Some file_info \<Rightarrow>
          if \<not> exists (path file_info)
          then Inl (HTTPException 404 (ustr ''File not found on disk''))
          else Inr \<lparr>response_path = path file_info,
                    response_filename = filename file_info,
                    media_type = ustr ''application/octet-stream''\<rparr>)"

section \<open>Properties\<close>

lemma norm_run_Nil: "norm_run [] = norm_init"
  by (simp add: norm_run_def)

lemma norm_run_snoc: "norm_run (ls @ [l]) = norm_step (norm_run ls) l"
  by (simp add: norm_run_def)

lemma norm_run_append: "norm_run (xs @ ys) = foldl norm_step (norm_run xs) ys"
  by (simp add: norm_run_def)

lemma inside_norm_step:
  "inside_code_fence (norm_step st l) = (if fence_pattern_match l then \<not> inside_code_fence st else inside_code_fence st)"
  by (simp add: norm_step_def Let_def)

lemma previous_norm_step: "previous_raw_line (norm_step st l) = l"
  by (simp add: norm_step_def Let_def)

lemma inside_norm_run:
  "inside_code_fence (norm_run ls) \<longleftrightarrow> odd (length (filter fence_pattern_match ls))"
proof (induction ls rule: rev_induct)
  case Nil
  show ?case by (simp add: norm_run_Nil norm_init_def)
next
  case (snoc l ls)
  then show ?case by (simp add: norm_run_snoc inside_norm_step)
qed

lemma lines_norm_step_fence:
  "fence_pattern_match l \<Longrightarrow> normalized_lines (norm_step st l) = normalized_lines st @ [l]"
  by (simp add: norm_step_def)

lemma lines_norm_step_inside:
  "inside_code_fence st \<Longrightarrow> normalized_lines (norm_step st l) = normalized_lines st @ [l]"
  by (simp add: norm_step_def)

lemma prefix_norm_step: "prefix (normalized_lines st) (normalized_lines (norm_step st l))"
  by (simp add: norm_step_def Let_def)

lemma prefix_foldl_norm_step:
  "prefix (normalized_lines st) (normalized_lines (foldl norm_step st ls))"
proof (induction ls arbitrary: st)
  case Nil
  show ?case by simp
next
  case (Cons l ls)
  have "prefix (normalized_lines st) (normalized_lines (norm_step st l))"
    by (rule prefix_norm_step)
  also have "prefix \<dots> (normalized_lines (foldl norm_step (norm_step st l) ls))"
    by (rule Cons.IH)
  finally show ?case by simp
qed

lemma normalize_eq_join:
  "normalize_markdown_bullets content = join_lf (normalized_lines (norm_run (splitlines content)))"
  by (simp add: normalize_markdown_bullets_def splitlines_def norm_run_Nil norm_init_def)

text \<open>
  Claim C1 (fence safety). Let the input split into the lines \<open>pre @ l # post\<close>. The
  fence state after \<open>pre\<close> is open exactly when \<open>pre\<close> holds an odd number of fence
  markers (pure counting, so an unterminated fence stays open to the end of the input).
  If \<open>l\<close> is a fence marker, or the fence is open when \<open>l\<close> is read, then the loop
  appends \<open>l\<close> itself and nothing else: no glyph replacement, no dash fix and no blank
  line before it, and \<open>l\<close> stands unchanged in the output, right after what \<open>pre\<close>
  produced.
\<close>

theorem fence_safety:
  assumes split: "splitlines content = pre @ l # post"
    and fenced: "fence_pattern_match l \<or> odd (length (filter fence_pattern_match pre))"
  shows "(inside_code_fence (norm_run pre) \<longleftrightarrow> odd (length (filter fence_pattern_match pre)))
       \<and> (inside_code_fence (norm_run (pre @ [l])) \<longleftrightarrow>
            (if fence_pattern_match l then \<not> inside_code_fence (norm_run pre)
             else inside_code_fence (norm_run pre)))
       \<and> normalized_lines (norm_run (pre @ [l])) = normalized_lines (norm_run pre) @ [l]
       \<and> (\<exists>tail. normalize_markdown_bullets content
                   = join_lf (normalized_lines (norm_run pre) @ l # tail))"
proof -
  have count: "inside_code_fence (norm_run pre) \<longleftrightarrow> odd (length (filter fence_pattern_match pre))"
    by (rule inside_norm_run)
  have toggle: "inside_code_fence (norm_run (pre @ [l])) \<longleftrightarrow>
      (if fence_pattern_match l then \<not> inside_code_fence (norm_run pre)
       else inside_code_fence (norm_run pre))"
    by (simp add: norm_run_snoc inside_norm_step)
  have same: "normalized_lines (norm_run (pre @ [l])) = normalized_lines (norm_run pre) @ [l]"
  proof (cases "fence_pattern_match l")
    case True
    then show ?thesis by (simp add: norm_run_snoc lines_norm_step_fence)
  next
    case False
    with fenced count have "inside_code_fence (norm_run pre)" by simp
    then show ?thesis by (simp add: norm_run_snoc lines_norm_step_inside)
  qed
  have "norm_run (pre @ l # post) = foldl norm_step (norm_run (pre @ [l])) post"
    using norm_run_append [of "pre @ [l]" post] by simp
  then have "prefix (normalized_lines (norm_run (pre @ [l])))
      (normalized_lines (norm_run (pre @ l # post)))"
    by (simp add: prefix_foldl_norm_step)
  then obtain tail where
    "normalized_lines (norm_run (pre @ l # post)) = normalized_lines (norm_run (pre @ [l])) @ tail"
    by (auto simp: prefix_def)
  then have "normalize_markdown_bullets content
      = join_lf (normalized_lines (norm_run pre) @ l # tail)"
    by (simp add: normalize_eq_join split same)
  with count toggle same show ?thesis by blast
qed

subsection \<open>What the fix changes\<close>

lemma dropWhile_space_indent:
  assumes "\<not> is_space c"
  shows "dropWhile is_space (takeWhile is_space l @ c # t) = c # t"
proof -
  have "dropWhile is_space (takeWhile is_space l @ c # t) = dropWhile is_space (c # t)"
    by (rule dropWhile_append2) (auto dest: set_takeWhileD)
  with assms show ?thesis by simp
qed

lemma takeWhile_space_indent:
  assumes "\<not> is_space c"
  shows "takeWhile is_space (takeWhile is_space l @ c # t) = takeWhile is_space l"
proof -
  have "takeWhile is_space (takeWhile is_space l @ c # t)
      = takeWhile is_space l @ takeWhile is_space (c # t)"
    by (rule takeWhile_append2) (auto dest: set_takeWhileD)
  with assms show ?thesis by simp
qed

lemma hyphen_not_space: "\<not> is_space 45"
  by (simp add: is_space_def)

lemma space_is_space: "is_space 32"
  by (simp add: is_space_def)

lemma glyph_not_hyphen: "\<not> is_bullet_glyph 45"
  by (simp add: is_bullet_glyph_def)

lemma fix_line_blank:
  assumes "dropWhile is_space l = []"
  shows "fix_line l = l"
proof -
  have "\<not> bullet_glyph_match l"
    unfolding bullet_glyph_match_def assms by simp
  moreover have "dash_space_sub l = l"
    unfolding dash_space_sub_def assms by simp
  ultimately show ?thesis by (simp add: fix_line_def)
qed

lemma dash_space_sub_hyphen_space:
  "dash_space_sub (takeWhile is_space l @ 45 # 32 # t) = takeWhile is_space l @ 45 # 32 # t"
  by (simp add: dash_space_sub_def dropWhile_space_indent hyphen_not_space space_is_space)

lemma fix_line_glyph:
  assumes "dropWhile is_space l = c # r" and "is_bullet_glyph c"
  shows "fix_line l = takeWhile is_space l @ 45 # 32 # dropWhile is_space r"
proof -
  have "bullet_glyph_match l"
    using assms by (simp add: bullet_glyph_match_def)
  moreover have "bullet_glyph_sub l = takeWhile is_space l @ 45 # 32 # dropWhile is_space r"
    using assms by (simp add: bullet_glyph_sub_def)
  ultimately show ?thesis
    by (simp add: fix_line_def dash_space_sub_hyphen_space)
qed

lemma fix_line_other:
  assumes "dropWhile is_space l = c # r" and "\<not> is_bullet_glyph c"
  shows "fix_line l =
     (if c = 45 \<and> (case r of [] \<Rightarrow> True | d # _ \<Rightarrow> \<not> is_space d) \<and> 10 \<notin> set (butlast r)
      then takeWhile is_space l @ 45 # 32 # r else l)"
proof -
  have "\<not> bullet_glyph_match l"
    using assms by (simp add: bullet_glyph_match_def)
  then have "fix_line l = dash_space_sub l"
    by (simp add: fix_line_def)
  also have "\<dots> = (if c = 45 \<and> (case r of [] \<Rightarrow> True | d # _ \<Rightarrow> \<not> is_space d) \<and> 10 \<notin> set (butlast r)
      then takeWhile is_space l @ 45 # 32 # r else l)"
    using assms(1) by (simp add: dash_space_sub_def)
  finally show ?thesis .
qed

lemma fix_line_cases [case_names same changed]:
  obtains "fix_line l = l"
  | c r t where "dropWhile is_space l = c # r" and "is_bullet_glyph c \<or> c = 45"
      and "fix_line l = takeWhile is_space l @ 45 # 32 # t"
proof (cases "dropWhile is_space l")
  case Nil
  then have "fix_line l = l" by (rule fix_line_blank)
  then show ?thesis by (rule that(1))
next
  case (Cons c r)
  show ?thesis
  proof (cases "is_bullet_glyph c")
    case True
    with Cons have fixed: "fix_line l = takeWhile is_space l @ 45 # 32 # dropWhile is_space r"
      by (rule fix_line_glyph)
    from True have "is_bullet_glyph c \<or> c = 45" by simp
    with Cons show ?thesis using fixed by (rule that(2))
  next
    case False
    note other = fix_line_other [OF Cons False]
    show ?thesis
    proof (cases "fix_line l = l")
      case True
      then show ?thesis by (rule that(1))
    next
      case changed: False
      with other have hyphen: "c = 45" and fixed: "fix_line l = takeWhile is_space l @ 45 # 32 # r"
        by (simp_all split: if_splits)
      from hyphen have "is_bullet_glyph c \<or> c = 45" by simp
      with Cons show ?thesis using fixed by (rule that(2))
    qed
  qed
qed

lemma fix_line_fixed:
  "fix_line (takeWhile is_space l @ 45 # 32 # t) = takeWhile is_space l @ 45 # 32 # t"
  by (simp add: fix_line_def bullet_glyph_match_def dash_space_sub_hyphen_space
      dropWhile_space_indent hyphen_not_space glyph_not_hyphen)

lemma fix_line_idem: "fix_line (fix_line l) = fix_line l"
proof (cases l rule: fix_line_cases)
  case same
  then show ?thesis by simp
next
  case (changed c r t)
  then show ?thesis by (simp add: fix_line_fixed)
qed

lemma fix_line_Nil: "fix_line [] = []"
  by (simp add: fix_line_blank)

lemma fix_line_eq_Nil: "fix_line l = [] \<longleftrightarrow> l = []"
proof (cases l rule: fix_line_cases)
  case same
  then show ?thesis by simp
next
  case (changed c r t)
  then have "l \<noteq> []" by auto
  with changed(3) show ?thesis by simp
qed

subsection \<open>The patterns on a fixed line\<close>

lemma not_fence_hyphen_space: "\<not> fence_pattern_match (takeWhile is_space l @ 45 # 32 # t)"
  by (simp add: fence_pattern_match_def dropWhile_space_indent hyphen_not_space startswith_def)

lemma not_heading_hyphen_space: "\<not> heading_pattern_match (takeWhile is_space l @ 45 # 32 # t)"
  by (simp add: heading_pattern_match_def dropWhile_space_indent hyphen_not_space)

lemma not_fence_first:
  assumes "dropWhile is_space l = c # r" and "c \<noteq> 96" and "c \<noteq> 126"
  shows "\<not> fence_pattern_match l"
  unfolding fence_pattern_match_def assms(1) Let_def startswith_def
  using assms(2,3) by simp

lemma not_heading_first:
  assumes "dropWhile is_space l = c # r" and "c \<noteq> 35"
  shows "\<not> heading_pattern_match l"
  unfolding heading_pattern_match_def assms(1) Let_def
  using assms(2) by simp

lemma glyph_or_hyphen_codes:
  assumes "is_bullet_glyph c \<or> c = 45"
  shows "c \<noteq> 96" and "c \<noteq> 126" and "c \<noteq> 35"
  using assms by (auto simp: is_bullet_glyph_def)

lemma fence_fix_line: "fence_pattern_match (fix_line l) \<longleftrightarrow> fence_pattern_match l"
proof (cases l rule: fix_line_cases)
  case same
  then show ?thesis by simp
next
  case (changed c r t)
  have "\<not> fence_pattern_match l"
    using changed(1) glyph_or_hyphen_codes(1,2) [OF changed(2)] by (rule not_fence_first)
  then show ?thesis
    by (simp add: changed(3) not_fence_hyphen_space)
qed

lemma heading_fix_line: "heading_pattern_match (fix_line l) \<longleftrightarrow> heading_pattern_match l"
proof (cases l rule: fix_line_cases)
  case same
  then show ?thesis by simp
next
  case (changed c r t)
  have "\<not> heading_pattern_match l"
    using changed(1) glyph_or_hyphen_codes(3) [OF changed(2)] by (rule not_heading_first)
  then show ?thesis
    by (simp add: changed(3) not_heading_hyphen_space)
qed

lemma heading_first:
  assumes "heading_pattern_match h"
  obtains r where "dropWhile is_space h = 35 # r"
proof (cases "dropWhile is_space h")
  case Nil
  have "\<not> heading_pattern_match h"
    unfolding heading_pattern_match_def Nil Let_def by simp
  with assms show ?thesis by simp
next
  case (Cons c r)
  have "c = 35"
  proof (rule ccontr)
    assume "c \<noteq> 35"
    with Cons have "\<not> heading_pattern_match h" by (rule not_heading_first)
    with assms show False by simp
  qed
  with Cons show ?thesis by (intro that) simp
qed

lemma fence_first:
  assumes "fence_pattern_match l"
  obtains r where "dropWhile is_space l = 96 # r" | r where "dropWhile is_space l = 126 # r"
proof (cases "dropWhile is_space l")
  case Nil
  have "\<not> fence_pattern_match l"
    unfolding fence_pattern_match_def Nil Let_def startswith_def by simp
  with assms show ?thesis by simp
next
  case (Cons c r)
  have "c = 96 \<or> c = 126"
  proof (rule ccontr)
    assume "\<not> (c = 96 \<or> c = 126)"
    then have "c \<noteq> 96" and "c \<noteq> 126" by simp_all
    with Cons have "\<not> fence_pattern_match l" by (rule not_fence_first)
    with assms show False by simp
  qed
  with Cons that show ?thesis by auto
qed

lemma heading_not_fence:
  assumes "heading_pattern_match h"
  shows "\<not> fence_pattern_match h"
proof -
  from assms obtain r where "dropWhile is_space h = 35 # r" by (rule heading_first)
  then show ?thesis by (rule not_fence_first) simp_all
qed

lemma heading_not_Nil: "heading_pattern_match h \<Longrightarrow> h \<noteq> []"
  by (auto simp: heading_pattern_match_def)

lemma heading_fix_line_same:
  assumes "heading_pattern_match h"
  shows "fix_line h = h"
proof -
  from assms obtain r where first: "dropWhile is_space h = 35 # r" by (rule heading_first)
  have "\<not> is_bullet_glyph 35" by (simp add: is_bullet_glyph_def)
  with first have "fix_line h = (if (35::nat) = 45 \<and> (case r of [] \<Rightarrow> True | d # _ \<Rightarrow> \<not> is_space d) \<and> 10 \<notin> set (butlast r)
      then takeWhile is_space h @ 45 # 32 # r else h)"
    by (rule fix_line_other)
  then show ?thesis by simp
qed

lemma not_digit_fence: "\<not> is_digit 96" "\<not> is_digit 126"
  by (simp_all add: is_digit_def decimal_blocks_def)

lemma not_list_start_first:
  assumes "dropWhile is_space l = c # r" and "c \<notin> {45, 42, 43}" and "\<not> is_digit c"
  shows "\<not> list_start_pattern_match l"
  unfolding list_start_pattern_match_def assms(1) Let_def
  using assms(2,3) by (simp split: list.split)

lemma fence_not_list_start:
  assumes "fence_pattern_match l"
  shows "\<not> list_start_pattern_match l"
  using assms
proof (cases rule: fence_first)
  case (1 r)
  then show ?thesis by (rule not_list_start_first) (simp_all add: not_digit_fence)
next
  case (2 r)
  then show ?thesis by (rule not_list_start_first) (simp_all add: not_digit_fence)
qed

lemma list_start_fix_line_not_fence:
  assumes "list_start_pattern_match (fix_line l)"
  shows "\<not> fence_pattern_match l"
proof
  assume "fence_pattern_match l"
  then have "fence_pattern_match (fix_line l)" by (simp add: fence_fix_line)
  then have "\<not> list_start_pattern_match (fix_line l)" by (rule fence_not_list_start)
  with assms show False by simp
qed

lemma list_start_not_Nil: "\<not> list_start_pattern_match []"
  by (simp add: list_start_pattern_match_def)

lemma fence_not_Nil: "\<not> fence_pattern_match []"
  by (simp add: fence_pattern_match_def startswith_def)

subsection \<open>The step outside a fence\<close>

lemma lines_norm_step_outside:
  assumes "\<not> fence_pattern_match l" and "\<not> inside_code_fence st"
  shows "normalized_lines (norm_step st l) =
     (if heading_pattern_match (previous_raw_line st) \<and> list_start_pattern_match (fix_line l)
         \<and> normalized_lines st \<noteq> [] \<and> last (normalized_lines st) \<noteq> []
      then normalized_lines st @ [[], fix_line l]
      else normalized_lines st @ [fix_line l])"
  using assms heading_not_Nil [of "previous_raw_line st"]
  by (auto simp: norm_step_def Let_def)

lemma last_lines_norm_step:
  "last (normalized_lines (norm_step st l)) =
     (if fence_pattern_match l \<or> inside_code_fence st then l else fix_line l)"
  by (simp add: norm_step_def Let_def)

lemma lines_norm_step_not_Nil: "normalized_lines (norm_step st l) \<noteq> []"
  by (simp add: norm_step_def Let_def)

lemmas norm_eval = normalize_markdown_bullets_def splitlines_def norm_run_def norm_step_def
  norm_init_def fix_line_def Let_def fence_pattern_match_def heading_pattern_match_def
  list_start_pattern_match_def bullet_glyph_match_def bullet_glyph_sub_def dash_space_sub_def
  startswith_def is_space_def is_linebreak_def is_bullet_glyph_def is_digit_def
  decimal_blocks_def ustr_def

text \<open>
  The example of the specification: a bullet glyph line inside a fence stays the same.
\<close>

theorem fence_safety_witness:
  "splitlines (ustr ''```'' @ [10, 8226] @ ustr ''item'' @ [10] @ ustr ''```'')
      = [ustr ''```''] @ (8226 # ustr ''item'') # [ustr ''```'']
   \<and> odd (length (filter fence_pattern_match [ustr ''```'']))
   \<and> inside_code_fence (norm_run [ustr ''```''])
   \<and> normalized_lines (norm_run ([ustr ''```''] @ [8226 # ustr ''item'']))
      = normalized_lines (norm_run [ustr ''```'']) @ [8226 # ustr ''item'']
   \<and> normalize_markdown_bullets (ustr ''```'' @ [10, 8226] @ ustr ''item'' @ [10] @ ustr ''```'')
      = ustr ''```'' @ [10, 8226] @ ustr ''item'' @ [10] @ ustr ''```''"
proof -
  have split: "splitlines (ustr ''```'' @ [10, 8226] @ ustr ''item'' @ [10] @ ustr ''```'')
      = [ustr ''```''] @ (8226 # ustr ''item'') # [ustr ''```'']"
    by (simp add: norm_eval)
  have fenced: "fence_pattern_match (8226 # ustr ''item'')
      \<or> odd (length (filter fence_pattern_match [ustr ''```'']))"
    by (simp add: norm_eval)
  have out: "normalize_markdown_bullets (ustr ''```'' @ [10, 8226] @ ustr ''item'' @ [10] @ ustr ''```'')
      = ustr ''```'' @ [10, 8226] @ ustr ''item'' @ [10] @ ustr ''```''"
    by (simp add: norm_eval)
  have odd: "odd (length (filter fence_pattern_match [ustr ''```'']))"
    by (simp add: norm_eval)
  from fence_safety [OF split fenced] split odd out show ?thesis by simp
qed

text \<open>
  Claim C4 (heading and list separation), as amended: when the fence is not open, the
  previous raw line \<open>h\<close> matches the heading pattern and the current line after its fix
  matches the list-item pattern, then the line emitted last is the heading itself, which
  is not blank, and exactly one blank line is emitted before the current line. The
  example of the specification is the second conjunct.
\<close>

theorem heading_list_separation:
  "(heading_pattern_match h \<and> list_start_pattern_match (fix_line l)
      \<and> \<not> inside_code_fence (norm_run (pre @ [h]))
    \<longrightarrow> last (normalized_lines (norm_run (pre @ [h]))) = h \<and> h \<noteq> []
      \<and> normalized_lines (norm_run (pre @ [h, l]))
          = normalized_lines (norm_run (pre @ [h])) @ [[], fix_line l])
   \<and> normalize_markdown_bullets (ustr ''# Title'' @ [10] @ ustr ''- a'' @ [10] @ ustr ''- b'')
      = ustr ''# Title'' @ [10, 10] @ ustr ''- a'' @ [10] @ ustr ''- b''"
proof (intro conjI impI)
  assume hyps: "heading_pattern_match h \<and> list_start_pattern_match (fix_line l)
      \<and> \<not> inside_code_fence (norm_run (pre @ [h]))"
  then have heading: "heading_pattern_match h"
    and list_start: "list_start_pattern_match (fix_line l)"
    and outside: "\<not> inside_code_fence (norm_run (pre @ [h]))"
    by simp_all
  let ?st = "norm_run (pre @ [h])"
  have st: "?st = norm_step (norm_run pre) h" by (rule norm_run_snoc)
  have no_fence_h: "\<not> fence_pattern_match h" using heading by (rule heading_not_fence)
  with outside have outside_pre: "\<not> inside_code_fence (norm_run pre)"
    by (simp add: st inside_norm_step)
  show last_h: "last (normalized_lines ?st) = h"
    using no_fence_h outside_pre heading
    by (simp add: st last_lines_norm_step heading_fix_line_same)
  show not_blank: "h \<noteq> []" using heading by (rule heading_not_Nil)
  have prev: "previous_raw_line ?st = h" by (simp add: st previous_norm_step)
  have not_empty: "normalized_lines ?st \<noteq> []" by (simp add: st lines_norm_step_not_Nil)
  have no_fence_l: "\<not> fence_pattern_match l"
    using list_start by (rule list_start_fix_line_not_fence)
  have "norm_run (pre @ [h, l]) = norm_step ?st l"
    using norm_run_snoc [of "pre @ [h]" l] by simp
  then show "normalized_lines (norm_run (pre @ [h, l])) = normalized_lines ?st @ [[], fix_line l]"
    using lines_norm_step_outside [OF no_fence_l outside] prev heading list_start not_empty
      last_h not_blank
    by simp
next
  show "normalize_markdown_bullets (ustr ''# Title'' @ [10] @ ustr ''- a'' @ [10] @ ustr ''- b'')
      = ustr ''# Title'' @ [10, 10] @ ustr ''- a'' @ [10] @ ustr ''- b''"
    by (simp add: norm_eval)
qed

theorem heading_list_separation_witness:
  "heading_pattern_match (ustr ''# Title'')
   \<and> list_start_pattern_match (fix_line (ustr ''- a''))
   \<and> \<not> inside_code_fence (norm_run ([] @ [ustr ''# Title'']))
   \<and> normalized_lines (norm_run ([] @ [ustr ''# Title'', ustr ''- a'']))
      = normalized_lines (norm_run ([] @ [ustr ''# Title''])) @ [[], fix_line (ustr ''- a'')]
   \<and> normalized_lines (norm_run ([] @ [ustr ''# Title'', ustr ''- a'']))
      = [ustr ''# Title'', [], ustr ''- a'']"
proof -
  have hyps: "heading_pattern_match (ustr ''# Title'')
      \<and> list_start_pattern_match (fix_line (ustr ''- a''))
      \<and> \<not> inside_code_fence (norm_run ([] @ [ustr ''# Title'']))"
    by (simp add: norm_eval)
  have out: "normalized_lines (norm_run ([] @ [ustr ''# Title'', ustr ''- a'']))
      = [ustr ''# Title'', [], ustr ''- a'']"
    by (simp add: norm_eval)
  from heading_list_separation [of "ustr ''# Title''" "ustr ''- a''" "[]"] hyps out
  show ?thesis by blast
qed

text \<open>
  Inside an open fence the conditions of claim C4 can all hold, and no blank line is
  emitted: the three lines are returned as they are.
\<close>

theorem heading_list_in_fence_counterexample:
  "heading_pattern_match (ustr ''# c'')
   \<and> list_start_pattern_match (ustr ''- a'')
   \<and> last (normalized_lines (norm_run [ustr ''```'', ustr ''# c''])) \<noteq> []
   \<and> normalized_lines (norm_run [ustr ''```'', ustr ''# c'', ustr ''- a''])
      = [ustr ''```'', ustr ''# c'', ustr ''- a'']
   \<and> normalize_markdown_bullets (ustr ''```'' @ [10] @ ustr ''# c'' @ [10] @ ustr ''- a'')
      = ustr ''```'' @ [10] @ ustr ''# c'' @ [10] @ ustr ''- a''"
  by (simp add: norm_eval)

end
